theory Spec2Isabelle
  imports Complex_Main
begin

section \<open>Two-dimensional sample grids\<close>

text \<open>
  The alignment code of \<^verbatim>\<open>src/code/alignment.py\<close> works on two-dimensional
  \<^verbatim>\<open>np.ndarray\<close> values.  A grid is modelled by its shape and its cell function;
  only the cells inside the shape are ever read.  The assertion
  \<^verbatim>\<open>reference.ndim == 2 and target.ndim == 2\<close> holds by typing.

  Samples are real numbers: the casts \<^verbatim>\<open>astype(np.float32)\<close> and the floating
  point arithmetic of the metrics are idealised as exact arithmetic on finite values,
  so rounding, overflow and NaN are outside the model.
\<close>

datatype ndarray = NdArray (nrows: nat) (ncols: nat) (cell: "nat \<Rightarrow> nat \<Rightarrow> real")

definition shape :: "ndarray \<Rightarrow> nat \<times> nat" where
  "shape a = (nrows a, ncols a)"

text \<open>A grid written as a list of rows (for concrete inputs).\<close>

definition of_rows :: "real list list \<Rightarrow> ndarray" where
  "of_rows rs = NdArray (length rs) (if rs = [] then 0 else length (hd rs)) (\<lambda>i j. rs ! i ! j)"

text \<open>
  \<^verbatim>\<open>np.roll(a, shift=(dy, dx), axis=(0, 1))\<close>: the circular shift.  The sample at
  row \<open>i\<close>, column \<open>j\<close> of the result is the sample of \<open>a\<close> at row
  \<open>(i - dy) mod h\<close>, column \<open>(j - dx) mod w\<close>.
\<close>

definition np_roll :: "ndarray \<Rightarrow> int \<Rightarrow> int \<Rightarrow> ndarray" where
  "np_roll a dy dx =
     NdArray (nrows a) (ncols a)
       (\<lambda>i j. cell a (nat ((int i - dy) mod int (nrows a)))
                      (nat ((int j - dx) mod int (ncols a))))"

text \<open>
  The basic slice \<^verbatim>\<open>a[r0:r1, c0:c1]\<close> for bounds that are not negative (the code
  only slices with \<^verbatim>\<open>ch\<close>, \<^verbatim>\<open>h - ch\<close>, \<^verbatim>\<open>cw\<close>, \<^verbatim>\<open>w - cw\<close>, where
  \<open>0 \<le> ch \<le> h // 4\<close>).  Bounds past the end are clipped, and an empty range gives
  an empty axis.
\<close>

definition slice2 :: "ndarray \<Rightarrow> nat \<Rightarrow> nat \<Rightarrow> nat \<Rightarrow> nat \<Rightarrow> ndarray" where
  "slice2 a r0 r1 c0 c1 =
     (let rs = min r0 (nrows a); re = min r1 (nrows a);
          cs = min c0 (ncols a); ce = min c1 (ncols a)
      in NdArray (re - rs) (ce - cs) (\<lambda>i j. cell a (rs + i) (cs + j)))"

text \<open>\<^verbatim>\<open>a[::2, ::2]\<close>: every second row and column.\<close>

definition decimate :: "ndarray \<Rightarrow> ndarray" where
  "decimate a =
     NdArray ((nrows a + 1) div 2) ((ncols a + 1) div 2) (\<lambda>i j. cell a (2 * i) (2 * j))"

definition map_cells :: "(real \<Rightarrow> real) \<Rightarrow> ndarray \<Rightarrow> ndarray" where
  "map_cells f a = NdArray (nrows a) (ncols a) (\<lambda>i j. f (cell a i j))"

definition np_sum :: "ndarray \<Rightarrow> real" where
  "np_sum a = (\<Sum>i\<leftarrow>[0..<nrows a]. \<Sum>j\<leftarrow>[0..<ncols a]. cell a i j)"

text \<open>
  \<^verbatim>\<open>a.mean()\<close> and \<^verbatim>\<open>a.std()\<close> (population standard deviation).  On an empty
  grid NumPy yields NaN with a warning; the value is then never used, because every
  elementwise result is empty and its sum is \<open>0.0\<close>.
\<close>

definition np_mean :: "ndarray \<Rightarrow> real" where
  "np_mean a = np_sum a / real (nrows a * ncols a)"

definition np_std :: "ndarray \<Rightarrow> real" where
  "np_std a = sqrt (np_mean (map_cells (\<lambda>x. (x - np_mean a)\<^sup>2) a))"

text \<open>
  Elementwise binary operations follow NumPy broadcasting: two axis lengths are
  compatible when they are equal or one of them is 1; otherwise NumPy raises
  \<^verbatim>\<open>ValueError: operands could not be broadcast together\<close>.
\<close>

datatype error = ValueError

definition broadcast_dim :: "nat \<Rightarrow> nat \<Rightarrow> nat option" where
  "broadcast_dim m n =
     (if m = n then Some m else if m = 1 then Some n else if n = 1 then Some m else None)"

definition broadcast_op ::
  "(real \<Rightarrow> real \<Rightarrow> real) \<Rightarrow> ndarray \<Rightarrow> ndarray \<Rightarrow> error + ndarray" where
  "broadcast_op f a b =
     (case broadcast_dim (nrows a) (nrows b) of
        None \<Rightarrow> Inl ValueError
      | Some h \<Rightarrow>
          (case broadcast_dim (ncols a) (ncols b) of
             None \<Rightarrow> Inl ValueError
           | Some w \<Rightarrow>
               Inr (NdArray h w
                 (\<lambda>i j. f (cell a (if nrows a = 1 then 0 else i) (if ncols a = 1 then 0 else j))
                           (cell b (if nrows b = 1 then 0 else i) (if ncols b = 1 then 0 else j))))))"

section \<open>Similarity metrics\<close>

text \<open>
  \<^verbatim>\<open>
  def ssd_metric(a, b):
      a = a.astype(np.float32); b = b.astype(np.float32)
      diff = a - b
      return float(np.sum(diff * diff))
  \<close>
\<close>

definition ssd_metric :: "ndarray \<Rightarrow> ndarray \<Rightarrow> error + real" where
  "ssd_metric a b =
     (case broadcast_op (-) a b of
        Inl e \<Rightarrow> Inl e
      | Inr diff \<Rightarrow> Inr (np_sum (map_cells (\<lambda>d. d * d) diff)))"

text \<open>
  \<^verbatim>\<open>
  def ncc_metric(a, b):
      a = a.astype(np.float32); b = b.astype(np.float32)
      a_mean = a.mean(); b_mean = b.mean()
      a_std = a.std() + 1e-8; b_std = b.std() + 1e-8
      return float(np.sum(((a - a_mean) / a_std) * ((b - b_mean) / b_std)))
  \<close>
\<close>

definition ncc_metric :: "ndarray \<Rightarrow> ndarray \<Rightarrow> error + real" where
  "ncc_metric a b =
     (let a_mean = np_mean a;
          b_mean = np_mean b;
          a_std = np_std a + 1 / 100000000;
          b_std = np_std b + 1 / 100000000
      in case broadcast_op (*) (map_cells (\<lambda>x. (x - a_mean) / a_std) a)
                               (map_cells (\<lambda>x. (x - b_mean) / b_std) b) of
           Inl e \<Rightarrow> Inl e
         | Inr p \<Rightarrow> Inr (np_sum p))"

section \<open>Exhaustive search\<close>

text \<open>\<^verbatim>\<open>metric.lower()\<close> on the letters A to Z.\<close>

definition lower_char :: "char \<Rightarrow> char" where
  "lower_char c =
     (case map_of (zip ''ABCDEFGHIJKLMNOPQRSTUVWXYZ'' ''abcdefghijklmnopqrstuvwxyz'') c of
        None \<Rightarrow> c
      | Some d \<Rightarrow> d)"

definition str_lower :: "string \<Rightarrow> string" where
  "str_lower s = map lower_char s"

text \<open>Python's \<^verbatim>\<open>int(x)\<close> on a float truncates toward zero.\<close>

definition py_int :: "real \<Rightarrow> int" where
  "py_int x = (if 0 \<le> x then \<lfloor>x\<rfloor> else \<lceil>x\<rceil>)"

text \<open>
  The crop margin of one axis of length \<open>d\<close>:
  \<^verbatim>\<open>min(max(0, int(d * edge_crop)), d // 4)\<close>.
\<close>

definition crop_margin :: "nat \<Rightarrow> real \<Rightarrow> int" where
  "crop_margin d edge_crop = min (max 0 (py_int (real d * edge_crop))) (int d div 4)"

text \<open>
  The running best score starts at \<^verbatim>\<open>-np.inf\<close> (NCC) or \<^verbatim>\<open>np.inf\<close> (SSD) and
  is afterwards a finite score.
\<close>

datatype score = NegInf | Fin real | PosInf

fun score_less :: "score \<Rightarrow> score \<Rightarrow> bool" where
  "score_less (Fin x) (Fin y) = (x < y)"
| "score_less NegInf NegInf = False"
| "score_less NegInf _ = True"
| "score_less PosInf _ = False"
| "score_less (Fin x) PosInf = True"
| "score_less (Fin x) NegInf = False"

type_synonym best = "score \<times> int \<times> int"

text \<open>
  A \<^verbatim>\<open>for\<close> loop over a list of indices whose body may raise: the first error ends
  the loop.
\<close>

fun for_range :: "('i \<Rightarrow> 's \<Rightarrow> error + 's) \<Rightarrow> 'i list \<Rightarrow> 's \<Rightarrow> error + 's" where
  "for_range body [] s = Inr s"
| "for_range body (i # is) s =
     (case body i s of Inl e \<Rightarrow> Inl e | Inr s' \<Rightarrow> for_range body is s')"

text \<open>
  The score of one candidate:
  \<^verbatim>\<open>
  shifted = np.roll(target, shift=(dy, dx), axis=(0, 1))
  shifted_crop = shifted[ch:h - ch, cw:w - cw]
  score = ncc_metric(ref_crop, shifted_crop)   # or ssd_metric
  \<close>
\<close>

definition score_candidate ::
  "bool \<Rightarrow> ndarray \<Rightarrow> ndarray \<Rightarrow> nat \<Rightarrow> nat \<Rightarrow> nat \<Rightarrow> nat \<Rightarrow> int \<Rightarrow> int \<Rightarrow> error + real" where
  "score_candidate use_ncc ref_crop target ch cw h w dy dx =
     (let shifted = np_roll target dy dx;
          shifted_crop = slice2 shifted ch (h - ch) cw (w - cw)
      in if use_ncc then ncc_metric ref_crop shifted_crop
         else ssd_metric ref_crop shifted_crop)"

text \<open>
  \<^verbatim>\<open>
  if use_ncc:
      if score > best_score: best_score, best_dx, best_dy = score, dx, dy
  else:
      if score < best_score: best_score, best_dx, best_dy = score, dx, dy
  \<close>
\<close>

fun update_best :: "bool \<Rightarrow> int \<Rightarrow> int \<Rightarrow> real \<Rightarrow> best \<Rightarrow> best" where
  "update_best use_ncc dy dx sc (best_score, best_dx, best_dy) =
     (if use_ncc
      then (if score_less best_score (Fin sc) then (Fin sc, dx, dy)
            else (best_score, best_dx, best_dy))
      else (if score_less (Fin sc) best_score then (Fin sc, dx, dy)
            else (best_score, best_dx, best_dy)))"

text \<open>
  The double loop, \<^verbatim>\<open>dy\<close> outside and \<^verbatim>\<open>dx\<close> inside, both over
  \<^verbatim>\<open>range(-search, search + 1)\<close>.  The loops of \<^verbatim>\<open>align_bruteforce\<close> (lines 42 to
  53) and of one level of \<^verbatim>\<open>pyramid_align\<close> (lines 93 to 104) are the same text up
  to the names of the variables.
\<close>

definition scan_candidates ::
  "bool \<Rightarrow> ndarray \<Rightarrow> ndarray \<Rightarrow> nat \<Rightarrow> nat \<Rightarrow> nat \<Rightarrow> nat \<Rightarrow> int \<Rightarrow> best \<Rightarrow> error + best" where
  "scan_candidates use_ncc ref_crop target ch cw h w search init =
     for_range
       (\<lambda>dy. for_range
          (\<lambda>dx st. case score_candidate use_ncc ref_crop target ch cw h w dy dx of
                      Inl e \<Rightarrow> Inl e
                    | Inr sc \<Rightarrow> Inr (update_best use_ncc dy dx sc st))
          [- search..search])
       [- search..search] init"

definition align_bruteforce ::
  "ndarray \<Rightarrow> ndarray \<Rightarrow> int \<Rightarrow> string \<Rightarrow> real \<Rightarrow> error + (int \<times> int \<times> score)" where
  "align_bruteforce reference target search_range metric edge_crop =
     (let h = nrows reference; w = ncols reference;
          ch = nat (crop_margin h edge_crop);
          cw = nat (crop_margin w edge_crop);
          ref_crop = slice2 reference ch (h - ch) cw (w - cw);
          use_ncc = (str_lower metric = ''ncc'');
          best_score = (if use_ncc then NegInf else PosInf)
      in case scan_candidates use_ncc ref_crop target ch cw h w search_range (best_score, 0, 0) of
           Inl e \<Rightarrow> Inl e
         | Inr (best_score, best_dx, best_dy) \<Rightarrow> Inr (best_dx, best_dy, best_score))"

text \<open>\<^verbatim>\<open>apply_alignment\<close> of \<^verbatim>\<open>src/code/utils.py\<close>.\<close>

definition apply_alignment :: "ndarray \<Rightarrow> int \<Rightarrow> int \<Rightarrow> ndarray" where
  "apply_alignment channel dx dy = np_roll channel dy dx"

section \<open>Pyramid search\<close>

text \<open>
  \<^verbatim>\<open>
  refs = [reference]
  for _ in range(1, max(1, levels)):
      refs.append(refs[-1][::2, ::2])
  \<close>
\<close>

definition build_pyramid :: "ndarray \<Rightarrow> int \<Rightarrow> ndarray list" where
  "build_pyramid a levels =
     fold (\<lambda>_ refs. refs @ [decimate (last refs)]) [1..<nat (max 1 levels)] [a]"

text \<open>
  One iteration of the loop over the levels (lines 80 to 110): the accumulated
  displacement is applied to the level's target, the window of radius
  \<^verbatim>\<open>search = base_search if lvl == 0 else refine_search\<close> is scanned, the best
  displacement is added, and the sum is doubled unless the level is 0.
\<close>

definition pyramid_level ::
  "ndarray list \<Rightarrow> ndarray list \<Rightarrow> int \<Rightarrow> int \<Rightarrow> bool \<Rightarrow> real \<Rightarrow> nat \<Rightarrow> int \<times> int
     \<Rightarrow> error + (int \<times> int)" where
  "pyramid_level refs tars base_search refine_search use_ncc edge_crop lvl tot =
     (let dx_total = fst tot; dy_total = snd tot;
          ref_l = refs ! lvl;
          tar_l = tars ! lvl;
          est = np_roll tar_l dy_total dx_total;
          search = (if lvl = 0 then base_search else refine_search);
          h = nrows ref_l; w = ncols ref_l;
          ch = nat (crop_margin h edge_crop);
          cw = nat (crop_margin w edge_crop);
          ref_crop = slice2 ref_l ch (h - ch) cw (w - cw);
          best_score = (if use_ncc then NegInf else PosInf)
      in case scan_candidates use_ncc ref_crop est ch cw h w search (best_score, 0, 0) of
           Inl e \<Rightarrow> Inl e
         | Inr (best_score, best_dx, best_dy) \<Rightarrow>
             Inr (if lvl \<noteq> 0
                  then ((dx_total + best_dx) * 2, (dy_total + best_dy) * 2)
                  else (dx_total + best_dx, dy_total + best_dy)))"

definition pyramid_align ::
  "ndarray \<Rightarrow> ndarray \<Rightarrow> int \<Rightarrow> int \<Rightarrow> int \<Rightarrow> string \<Rightarrow> real \<Rightarrow> error + (int \<times> int)" where
  "pyramid_align reference target levels base_search refine_search metric edge_crop =
     (let refs = build_pyramid reference levels;
          tars = build_pyramid target levels;
          use_ncc = (str_lower metric = ''ncc'')
      in for_range (pyramid_level refs tars base_search refine_search use_ncc edge_crop)
           (rev [0..<length refs]) (0, 0))"

section \<open>Notions used to state the properties\<close>

text \<open>
  The score the search assigns to the candidate displacement \<open>(dx, dy)\<close>: the metric
  of the cropped reference against the cropped, circularly shifted target, with the
  margins of \<^verbatim>\<open>align_bruteforce\<close> (lines 33 to 36 and 44 to 51).
\<close>

definition candidate_score ::
  "string \<Rightarrow> ndarray \<Rightarrow> ndarray \<Rightarrow> real \<Rightarrow> int \<Rightarrow> int \<Rightarrow> error + real" where
  "candidate_score metric reference target edge_crop dx dy =
     (let h = nrows reference; w = ncols reference;
          ch = nat (crop_margin h edge_crop);
          cw = nat (crop_margin w edge_crop);
          ref_crop = slice2 reference ch (h - ch) cw (w - cw)
      in score_candidate (str_lower metric = ''ncc'') ref_crop target ch cw h w dy dx)"

text \<open>Two grids can be combined elementwise.\<close>

definition broadcastable :: "ndarray \<Rightarrow> ndarray \<Rightarrow> bool" where
  "broadcastable a b =
     (broadcast_dim (nrows a) (nrows b) \<noteq> None \<and> broadcast_dim (ncols a) (ncols b) \<noteq> None)"

text \<open>
  The cropped reference and the cropped target of a call can be combined elementwise.
  The target is cropped with the margins and the bounds of the reference.
\<close>

definition crops_compatible :: "ndarray \<Rightarrow> ndarray \<Rightarrow> real \<Rightarrow> bool" where
  "crops_compatible reference target edge_crop =
     (let h = nrows reference; w = ncols reference;
          ch = nat (crop_margin h edge_crop);
          cw = nat (crop_margin w edge_crop)
      in broadcastable (slice2 reference ch (h - ch) cw (w - cw))
                       (slice2 target ch (h - ch) cw (w - cw)))"

text \<open>Two grids have the same shape and the same samples.\<close>

definition same_cells :: "ndarray \<Rightarrow> ndarray \<Rightarrow> bool" where
  "same_cells a b =
     (nrows a = nrows b \<and> ncols a = ncols b \<and>
      list_all (\<lambda>i. list_all (\<lambda>j. cell a i j = cell b i j) [0..<ncols a]) [0..<nrows a])"


text \<open>
  The margin as the specification words it:
  \<open>clamp(round(dimension_size * edge_crop), 0, dimension_size // 4)\<close>.
\<close>

definition spec_clamp :: "int \<Rightarrow> int \<Rightarrow> int \<Rightarrow> int" where
  "spec_clamp x lo hi = max lo (min x hi)"

definition spec_crop_margin :: "nat \<Rightarrow> real \<Rightarrow> int" where
  "spec_crop_margin d edge_crop = spec_clamp (round (real d * edge_crop)) 0 (int d div 4)"

text \<open>
  The radius of a level as the specification's description of the inputs words it:
  the coarsest level (index \<open>L - 1\<close>) uses \<open>base_search\<close>, every other level
  \<open>refine_search\<close>.
\<close>

definition spec_level_radius :: "nat \<Rightarrow> int \<Rightarrow> int \<Rightarrow> nat \<Rightarrow> int" where
  "spec_level_radius L base_search refine_search lvl =
     (if lvl = L - 1 then base_search else refine_search)"

text \<open>
  One level of the pyramid, searched by \<^verbatim>\<open>align_bruteforce\<close> with a given radius:
  the reference of the level against the target of the level shifted by the
  accumulated displacement, then the accumulation of lines 106 to 110.
\<close>

definition level_with_radius ::
  "ndarray list \<Rightarrow> ndarray list \<Rightarrow> int \<Rightarrow> string \<Rightarrow> real \<Rightarrow> nat \<Rightarrow> int \<times> int
     \<Rightarrow> error + (int \<times> int)" where
  "level_with_radius refs tars radius metric edge_crop lvl tot =
     (case align_bruteforce (refs ! lvl) (np_roll (tars ! lvl) (snd tot) (fst tot))
             radius metric edge_crop of
        Inl e \<Rightarrow> Inl e
      | Inr (best_dx, best_dy, best_score) \<Rightarrow>
          Inr (if lvl \<noteq> 0
               then ((fst tot + best_dx) * 2, (snd tot + best_dy) * 2)
               else (fst tot + best_dx, snd tot + best_dy)))"

text \<open>Small grids for concrete runs of the search.\<close>

definition grid_a :: ndarray where
  "grid_a = of_rows [[1, 2, 0], [0, 0, 0], [0, 0, 0]]"


definition grid_small :: ndarray where
  "grid_small = of_rows [[1, 2], [3, 4]]"

definition grid_wide :: ndarray where
  "grid_wide = of_rows [[1, 9, 2, 9, 0, 9], [9, 9, 9, 9, 9, 9]]"

section \<open>Loops\<close>

lemma for_range_pure:
  "(\<And>i s. i \<in> set xs \<Longrightarrow> body i s = Inr (f i s)) \<Longrightarrow> for_range body xs s = Inr (fold f xs s)"
  by (induction xs arbitrary: s) auto

lemma for_range_fails:
  "xs \<noteq> [] \<Longrightarrow> (\<And>i s. body i s = Inl e) \<Longrightarrow> for_range body xs s = Inl e"
  by (cases xs) auto

lemma fold_product:
  "fold (\<lambda>y. fold (f y) xs) ys s = fold (\<lambda>(y, x). f y x) (List.product ys xs) s"
  by (induction ys arbitrary: s) (auto simp: fold_map comp_def)

lemma nested_for_range_pure:
  assumes "\<And>dy dx s. dy \<in> set ys \<Longrightarrow> dx \<in> set xs \<Longrightarrow> body dy dx s = Inr (f dy dx s)"
  shows "for_range (\<lambda>dy. for_range (body dy) xs) ys s
           = Inr (fold (\<lambda>(dy, dx). f dy dx) (List.product ys xs) s)"
proof -
  have inner: "for_range (body dy) xs s' = Inr (fold (f dy) xs s')" if "dy \<in> set ys" for dy s'
    using assms that by (intro for_range_pure) auto
  have "for_range (\<lambda>dy. for_range (body dy) xs) ys s = Inr (fold (\<lambda>dy. fold (f dy) xs) ys s)"
    by (rule for_range_pure) (rule inner)
  then show ?thesis by (simp add: fold_product)
qed

lemma fold_update_best:
  assumes "cs \<noteq> []"
  shows "\<exists>pre c post. cs = pre @ c # post \<and>
           fold (\<lambda>(dy, dx). update_best u dy dx (f dy dx)) cs
                (if u then NegInf else PosInf, 0, 0)
             = (Fin (f (fst c) (snd c)), snd c, fst c) \<and>
           (\<forall>x\<in>set pre. if u then f (fst x) (snd x) < f (fst c) (snd c)
                           else f (fst c) (snd c) < f (fst x) (snd x)) \<and>
           (\<forall>x\<in>set post. if u then f (fst x) (snd x) \<le> f (fst c) (snd c)
                            else f (fst c) (snd c) \<le> f (fst x) (snd x))"
  using assms
proof (induction cs rule: rev_nonempty_induct)
  case (single c)
  have "fold (\<lambda>(dy, dx). update_best u dy dx (f dy dx)) [c]
                (if u then NegInf else PosInf, 0, 0) = (Fin (f (fst c) (snd c)), snd c, fst c)"
    by (cases c) simp
  then show ?case
    by (intro exI[of _ "[]"], intro exI[of _ c], intro exI[of _ "[]"]) simp
next
  case (snoc c cs)
  then obtain pre b post where cs: "cs = pre @ b # post"
    and res: "fold (\<lambda>(dy, dx). update_best u dy dx (f dy dx)) cs
                (if u then NegInf else PosInf, 0, 0) = (Fin (f (fst b) (snd b)), snd b, fst b)"
    and pre: "\<forall>x\<in>set pre. if u then f (fst x) (snd x) < f (fst b) (snd b)
                           else f (fst b) (snd b) < f (fst x) (snd x)"
    and post: "\<forall>x\<in>set post. if u then f (fst x) (snd x) \<le> f (fst b) (snd b)
                            else f (fst b) (snd b) \<le> f (fst x) (snd x)"
    by blast
  let ?better = "if u then f (fst b) (snd b) < f (fst c) (snd c)
                 else f (fst c) (snd c) < f (fst b) (snd b)"
  show ?case
  proof (cases ?better)
    case True
    have "fold (\<lambda>(dy, dx). update_best u dy dx (f dy dx)) (cs @ [c])
                (if u then NegInf else PosInf, 0, 0) = (Fin (f (fst c) (snd c)), snd c, fst c)"
      using True res by (cases c) (auto split: if_splits)
    moreover have "\<forall>x\<in>set cs. if u then f (fst x) (snd x) < f (fst c) (snd c)
                           else f (fst c) (snd c) < f (fst x) (snd x)"
    proof
      fix x assume "x \<in> set cs"
      then consider "x \<in> set pre" | "x = b" | "x \<in> set post" using cs by auto
      then show "if u then f (fst x) (snd x) < f (fst c) (snd c)
                 else f (fst c) (snd c) < f (fst x) (snd x)"
      proof cases
        case 1
        with pre have "if u then f (fst x) (snd x) < f (fst b) (snd b)
                       else f (fst b) (snd b) < f (fst x) (snd x)" by blast
        with True show ?thesis by (cases u) simp_all
      next
        case 2
        with True show ?thesis by simp
      next
        case 3
        with post have "if u then f (fst x) (snd x) \<le> f (fst b) (snd b)
                        else f (fst b) (snd b) \<le> f (fst x) (snd x)" by blast
        with True show ?thesis by (cases u) simp_all
      qed
    qed
    ultimately show ?thesis
      by (intro exI[of _ cs], intro exI[of _ c], intro exI[of _ "[]"]) simp
  next
    case False
    have "fold (\<lambda>(dy, dx). update_best u dy dx (f dy dx)) (cs @ [c])
                (if u then NegInf else PosInf, 0, 0) = (Fin (f (fst b) (snd b)), snd b, fst b)"
      using False res by (cases c) (auto split: if_splits)
    moreover have "\<forall>x\<in>set (post @ [c]). if u then f (fst x) (snd x) \<le> f (fst b) (snd b)
                            else f (fst b) (snd b) \<le> f (fst x) (snd x)"
      using False post by (cases u) auto
    ultimately show ?thesis using pre cs
      by (intro exI[of _ pre], intro exI[of _ b], intro exI[of _ "post @ [c]"]) simp
  qed
qed


section \<open>Shapes and totality of the metrics\<close>

lemma np_roll_shape [simp]:
  "nrows (np_roll a dy dx) = nrows a" "ncols (np_roll a dy dx) = ncols a"
  by (simp_all add: np_roll_def)

lemma slice2_shape [simp]:
  "nrows (slice2 a r0 r1 c0 c1) = min r1 (nrows a) - min r0 (nrows a)"
  "ncols (slice2 a r0 r1 c0 c1) = min c1 (ncols a) - min c0 (ncols a)"
  by (simp_all add: slice2_def Let_def)

lemma map_cells_shape [simp]:
  "nrows (map_cells f a) = nrows a" "ncols (map_cells f a) = ncols a"
  by (simp_all add: map_cells_def)

lemma error_unique: "((x::error) = y) = True"
  by (cases x, cases y) simp

lemma broadcast_op_Inl: "(broadcast_op f a b = Inl e) = (\<not> broadcastable a b)"
  by (cases e) (auto simp: broadcast_op_def broadcastable_def split: option.splits)

lemma broadcast_op_Inr: "broadcastable a b \<Longrightarrow> \<exists>c. broadcast_op f a b = Inr c"
  by (auto simp: broadcast_op_def broadcastable_def split: option.splits)

lemma ssd_metric_Inl: "(ssd_metric a b = Inl e) = (\<not> broadcastable a b)"
  using broadcast_op_Inl[of "(-)" a b e]
  by (auto simp: ssd_metric_def split: sum.splits)

lemma ncc_metric_Inl: "(ncc_metric a b = Inl e) = (\<not> broadcastable a b)"
proof -
  let ?za = "map_cells (\<lambda>x. (x - np_mean a) / (np_std a + 1 / 100000000)) a"
  let ?zb = "map_cells (\<lambda>x. (x - np_mean b) / (np_std b + 1 / 100000000)) b"
  have bc: "broadcastable ?za ?zb = broadcastable a b"
    by (simp add: broadcastable_def)
  show ?thesis
  proof (cases "broadcast_op (*) ?za ?zb")
    case (Inl x)
    then have "\<not> broadcastable a b"
      using broadcast_op_Inl[of "(*)" ?za ?zb x] bc by simp
    then show ?thesis
      using Inl by (simp add: ncc_metric_def Let_def error_unique)
  next
    case (Inr p)
    then have "broadcastable a b"
      using broadcast_op_Inl[of "(*)" ?za ?zb e] bc by simp
    then show ?thesis
      using Inr by (simp add: ncc_metric_def Let_def)
  qed
qed

lemma broadcastable_same_shape: "shape a = shape b \<Longrightarrow> broadcastable a b"
  by (simp add: shape_def broadcastable_def broadcast_dim_def)

lemma score_candidate_Inl:
  "(score_candidate u ref_crop target ch cw h w dy dx = Inl e)
     = (\<not> broadcastable ref_crop (slice2 target ch (h - ch) cw (w - cw)))"
proof -
  have "broadcastable ref_crop (slice2 (np_roll target dy dx) ch (h - ch) cw (w - cw))
          = broadcastable ref_crop (slice2 target ch (h - ch) cw (w - cw))"
    by (simp add: broadcastable_def)
  then show ?thesis
    by (simp add: score_candidate_def Let_def ssd_metric_Inl ncc_metric_Inl)
qed

lemma candidate_score_Inl:
  "(candidate_score metric reference target edge_crop dx dy = Inl e)
     = (\<not> crops_compatible reference target edge_crop)"
  by (simp add: candidate_score_def crops_compatible_def Let_def score_candidate_Inl)

lemma candidate_score_Inr:
  "crops_compatible reference target edge_crop \<Longrightarrow>
   candidate_score metric reference target edge_crop dx dy
     = Inr (projr (candidate_score metric reference target edge_crop dx dy))"
  by (cases "candidate_score metric reference target edge_crop dx dy")
     (simp_all add: candidate_score_Inl)

lemma crops_compatible_same_shape:
  "shape reference = shape target \<Longrightarrow> crops_compatible reference target edge_crop"
  by (simp add: crops_compatible_def Let_def shape_def broadcastable_def broadcast_dim_def)


section \<open>The exhaustive search returns the first optimum\<close>

lemma sorted_wrt_product:
  assumes "sorted_wrt (<) (ys :: int list)" and "sorted_wrt (<) xs"
  shows "sorted_wrt (\<lambda>p q. fst p < fst q \<or> (fst p = fst q \<and> snd p < snd q))
           (List.product ys (xs :: int list))"
  using assms(1)
proof (induction ys)
  case Nil
  then show ?case by simp
next
  case (Cons y ys)
  have "sorted_wrt (\<lambda>p q. fst p < fst q \<or> (fst p = fst q \<and> snd p < snd q)) (map (Pair y) xs)"
    using assms(2) by (simp add: sorted_wrt_map)
  with Cons show ?case
    by (auto simp: sorted_wrt_append)
qed

lemma scan_candidates_fold:
  assumes "\<And>dy dx. score_candidate u rc t ch cw h w dy dx = Inr (sc dy dx)"
  shows "scan_candidates u rc t ch cw h w R init
           = Inr (fold (\<lambda>(dy, dx). update_best u dy dx (sc dy dx))
                       (List.product [- R..R] [- R..R]) init)"
  unfolding scan_candidates_def
  by (rule nested_for_range_pure) (simp add: assms)

lemma align_bruteforce_fold:
  assumes "crops_compatible r t e"
  shows "align_bruteforce r t R m e =
          (case fold (\<lambda>(dy, dx). update_best (str_lower m = ''ncc'') dy dx
                                    (projr (candidate_score m r t e dx dy)))
                     (List.product [- R..R] [- R..R])
                     (if str_lower m = ''ncc'' then NegInf else PosInf, 0, 0) of
             (best_score, best_dx, best_dy) \<Rightarrow> Inr (best_dx, best_dy, best_score))"
proof -
  let ?h = "nrows r" and ?w = "ncols r"
  let ?ch = "nat (crop_margin ?h e)" and ?cw = "nat (crop_margin ?w e)"
  let ?rc = "slice2 r ?ch (?h - ?ch) ?cw (?w - ?cw)"
  let ?u = "str_lower m = ''ncc''"
  have sc: "score_candidate ?u ?rc t ?ch ?cw ?h ?w dy dx
              = Inr (projr (candidate_score m r t e dx dy))" for dy dx
    using candidate_score_Inr[OF assms, of m dx dy]
    by (simp add: candidate_score_def Let_def)
  show ?thesis
    unfolding align_bruteforce_def Let_def
    by (subst scan_candidates_fold[where sc = "\<lambda>dy dx. projr (candidate_score m r t e dx dy)"])
       (simp_all add: sc)
qed

lemma align_bruteforce_first_optimum:
  assumes comp: "crops_compatible r t e" and R: "0 \<le> R"
  shows "\<exists>bdx bdy.
           align_bruteforce r t R m e
             = Inr (bdx, bdy, Fin (projr (candidate_score m r t e bdx bdy))) \<and>
           bdx \<in> {- R..R} \<and> bdy \<in> {- R..R} \<and>
           (\<forall>dx\<in>{- R..R}. \<forall>dy\<in>{- R..R}.
              dy < bdy \<or> (dy = bdy \<and> dx < bdx) \<longrightarrow>
              (if str_lower m = ''ncc''
               then projr (candidate_score m r t e dx dy) < projr (candidate_score m r t e bdx bdy)
               else projr (candidate_score m r t e bdx bdy) < projr (candidate_score m r t e dx dy))) \<and>
           (\<forall>dx\<in>{- R..R}. \<forall>dy\<in>{- R..R}.
              (if str_lower m = ''ncc''
               then projr (candidate_score m r t e dx dy) \<le> projr (candidate_score m r t e bdx bdy)
               else projr (candidate_score m r t e bdx bdy) \<le> projr (candidate_score m r t e dx dy)))"
proof -
  let ?cs = "List.product [- R..R] [- R..R]"
  let ?u = "str_lower m = ''ncc''"
  let ?f = "\<lambda>dy dx. projr (candidate_score m r t e dx dy)"
  let ?lex = "\<lambda>p q :: int \<times> int. fst p < fst q \<or> (fst p = fst q \<and> snd p < snd q)"
  have "(0, 0) \<in> set ?cs" using R by simp
  then have "?cs \<noteq> []" by (metis empty_iff list.set(1))
  from fold_update_best[OF this, of ?u ?f]
  obtain pre c post where cs: "?cs = pre @ c # post"
    and res: "fold (\<lambda>(dy, dx). update_best ?u dy dx (?f dy dx)) ?cs
                (if ?u then NegInf else PosInf, 0, 0) = (Fin (?f (fst c) (snd c)), snd c, fst c)"
    and pre: "\<forall>x\<in>set pre. if ?u then ?f (fst x) (snd x) < ?f (fst c) (snd c)
                           else ?f (fst c) (snd c) < ?f (fst x) (snd x)"
    and post: "\<forall>x\<in>set post. if ?u then ?f (fst x) (snd x) \<le> ?f (fst c) (snd c)
                            else ?f (fst c) (snd c) \<le> ?f (fst x) (snd x)"
    by blast
  have srt: "sorted_wrt ?lex (pre @ c # post)"
    using sorted_wrt_product[of "[- R..R]" "[- R..R]"] cs by (simp add: sorted_wrt_upto)
  have mem: "insert c (set pre \<union> set post) = {- R..R} \<times> {- R..R}"
    using arg_cong[OF cs, of set] by simp
  have eq: "align_bruteforce r t R m e = Inr (snd c, fst c, Fin (?f (fst c) (snd c)))"
    using res by (simp add: align_bruteforce_fold[OF comp])
  have "c \<in> {- R..R} \<times> {- R..R}"
    using mem by blast
  then have win: "snd c \<in> {- R..R}" "fst c \<in> {- R..R}"
    by (simp_all add: mem_Times_iff)
  have before: "if ?u then ?f dy dx < ?f (fst c) (snd c) else ?f (fst c) (snd c) < ?f dy dx"
    if "dx \<in> {- R..R}" "dy \<in> {- R..R}" "dy < fst c \<or> (dy = fst c \<and> dx < snd c)" for dx dy
  proof -
    have "(dy, dx) \<in> insert c (set pre \<union> set post)"
      unfolding mem using that(1,2) by simp
    moreover have "(dy, dx) \<noteq> c" using that(3) by auto
    moreover have "(dy, dx) \<notin> set post"
    proof
      assume "(dy, dx) \<in> set post"
      then have "?lex c (dy, dx)" using srt by (fastforce simp: sorted_wrt_append)
      with that(3) show False by auto
    qed
    ultimately have "(dy, dx) \<in> set pre" by simp
    from bspec[OF pre this] show ?thesis by (cases ?u) simp_all
  qed
  have all: "if ?u then ?f dy dx \<le> ?f (fst c) (snd c) else ?f (fst c) (snd c) \<le> ?f dy dx"
    if "dx \<in> {- R..R}" "dy \<in> {- R..R}" for dx dy
  proof -
    have "(dy, dx) \<in> insert c (set pre \<union> set post)"
      unfolding mem using that by simp
    then consider "(dy, dx) \<in> set pre" | "(dy, dx) = c" | "(dy, dx) \<in> set post" by auto
    then show ?thesis
    proof cases
      case 1
      from bspec[OF pre 1]
      have "if ?u then ?f dy dx < ?f (fst c) (snd c) else ?f (fst c) (snd c) < ?f dy dx"
        by (cases ?u) simp_all
      then show ?thesis by (cases ?u) simp_all
    next
      case 2
      then have "fst c = dy" "snd c = dx" by auto
      then show ?thesis by simp
    next
      case 3
      from bspec[OF post 3] show ?thesis by (cases ?u) simp_all
    qed
  qed
  show ?thesis
  proof (rule exI[of _ "snd c"], rule exI[of _ "fst c"], intro conjI ballI impI)
    show "align_bruteforce r t R m e
            = Inr (snd c, fst c, Fin (projr (candidate_score m r t e (snd c) (fst c))))"
      by (rule eq)
    show "snd c \<in> {- R..R}" "fst c \<in> {- R..R}" by (rule win)+
  next
    fix dx dy
    assume "dx \<in> {- R..R}" "dy \<in> {- R..R}" "dy < fst c \<or> (dy = fst c \<and> dx < snd c)"
    then show "if ?u then ?f dy dx < ?f (fst c) (snd c) else ?f (fst c) (snd c) < ?f dy dx"
      by (rule before)
  next
    fix dx dy
    assume "dx \<in> {- R..R}" "dy \<in> {- R..R}"
    then show "if ?u then ?f dy dx \<le> ?f (fst c) (snd c) else ?f (fst c) (snd c) \<le> ?f dy dx"
      by (rule all)
  qed
qed

section \<open>Values of the metrics\<close>

lemma np_roll_cell:
  "cell (np_roll a dy dx) i j
     = cell a (nat ((int i - dy) mod int (nrows a))) (nat ((int j - dx) mod int (ncols a)))"
  by (simp add: np_roll_def)

lemma slice2_cell:
  "cell (slice2 a r0 r1 c0 c1) i j = cell a (min r0 (nrows a) + i) (min c0 (ncols a) + j)"
  by (simp add: slice2_def Let_def)

lemma map_cells_cell: "cell (map_cells f a) i j = f (cell a i j)"
  by (simp add: map_cells_def)

lemma sum_list_upt_cong:
  "(\<And>i. i < n \<Longrightarrow> f i = g i) \<Longrightarrow> (\<Sum>i\<leftarrow>[0..<n]. f i) = (\<Sum>i\<leftarrow>[0..<n]. (g i :: real))"
  by (intro arg_cong[where f = sum_list] map_cong) auto

lemma same_cells_iff:
  "same_cells a b =
     (nrows a = nrows b \<and> ncols a = ncols b \<and>
      (\<forall>i<nrows a. \<forall>j<ncols a. cell a i j = cell b i j))"
  by (auto simp: same_cells_def list_all_iff)

lemma same_cells_refl: "same_cells a a"
  by (simp add: same_cells_iff)



lemma np_sum_cong: "same_cells a b \<Longrightarrow> np_sum a = np_sum b"
  unfolding np_sum_def same_cells_iff
  by (auto intro!: sum_list_upt_cong)

lemma same_cells_map_cells: "same_cells a b \<Longrightarrow> same_cells (map_cells f a) (map_cells f b)"
  by (simp add: same_cells_iff map_cells_cell)

lemma np_mean_cong: "same_cells a b \<Longrightarrow> np_mean a = np_mean b"
  using np_sum_cong[of a b] by (simp add: np_mean_def same_cells_iff)

lemma np_std_cong: "same_cells a b \<Longrightarrow> np_std a = np_std b"
  using np_mean_cong[of a b]
        np_mean_cong[OF same_cells_map_cells[of a b "\<lambda>x. (x - np_mean b)\<^sup>2"]]
  by (simp add: np_std_def)







lemma roll_index_less: "0 < n \<Longrightarrow> nat (x mod int n) < n"
  by (simp add: nat_less_iff)



lemma same_cells_np_roll:
  assumes "same_cells a b"
  shows "same_cells (np_roll a dy dx) (np_roll b dy dx)"
proof -
  have "cell a (nat ((int i - dy) mod int (nrows b))) (nat ((int j - dx) mod int (ncols b)))
          = cell b (nat ((int i - dy) mod int (nrows b))) (nat ((int j - dx) mod int (ncols b)))"
    if "i < nrows b" "j < ncols b" for i j
  proof -
    have "nat ((int i - dy) mod int (nrows b)) < nrows b"
      using that(1) by (intro roll_index_less) simp
    moreover have "nat ((int j - dx) mod int (ncols b)) < ncols b"
      using that(2) by (intro roll_index_less) simp
    ultimately show ?thesis
      using assms by (simp add: same_cells_iff)
  qed
  then show ?thesis
    using assms by (simp add: same_cells_iff np_roll_cell)
qed

lemma ssd_metric_value:
  assumes "nrows a = nrows b" and "ncols a = ncols b"
  shows "ssd_metric a b
           = Inr (\<Sum>i\<leftarrow>[0..<nrows a]. \<Sum>j\<leftarrow>[0..<ncols a]. (cell a i j - cell b i j)\<^sup>2)"
proof -
  have "(\<Sum>i\<leftarrow>[0..<nrows b]. \<Sum>j\<leftarrow>[0..<ncols b].
           (cell a (if nrows b = 1 then 0 else i) (if ncols b = 1 then 0 else j)
            - cell b (if nrows b = 1 then 0 else i) (if ncols b = 1 then 0 else j))
           * (cell a (if nrows b = 1 then 0 else i) (if ncols b = 1 then 0 else j)
            - cell b (if nrows b = 1 then 0 else i) (if ncols b = 1 then 0 else j)))
        = (\<Sum>i\<leftarrow>[0..<nrows b]. \<Sum>j\<leftarrow>[0..<ncols b]. (cell a i j - cell b i j)\<^sup>2)"
    by (intro sum_list_upt_cong) (auto simp: power2_eq_square)
  then show ?thesis
    using assms
    by (simp add: ssd_metric_def broadcast_op_def broadcast_dim_def np_sum_def map_cells_def)
qed



lemma broadcast_op_cong2:
  assumes "same_cells a a'" and "same_cells b b'"
  shows "(case broadcast_op f a b of
            Inl e \<Rightarrow> (case broadcast_op f a' b' of Inl e' \<Rightarrow> True | Inr c' \<Rightarrow> False)
          | Inr c \<Rightarrow> (case broadcast_op f a' b' of Inl e' \<Rightarrow> False | Inr c' \<Rightarrow> same_cells c c'))"
  using assms
  by (auto simp: broadcast_op_def broadcast_dim_def same_cells_iff split: option.splits if_splits)

lemma ssd_metric_cong2:
  "same_cells a a' \<Longrightarrow> same_cells b b' \<Longrightarrow> ssd_metric a b = ssd_metric a' b'"
  using broadcast_op_cong2[of a a' b b' "(-)"]
  by (auto simp: ssd_metric_def error_unique split: sum.splits
           intro!: np_sum_cong same_cells_map_cells)

lemma ncc_metric_cong2:
  assumes a: "same_cells a a'" and b: "same_cells b b'"
  shows "ncc_metric a b = ncc_metric a' b'"
proof -
  let ?f = "\<lambda>x. (x - np_mean a) / (np_std a + 1 / 100000000)"
  let ?g = "\<lambda>x. (x - np_mean b) / (np_std b + 1 / 100000000)"
  have "same_cells (map_cells ?f a) (map_cells ?f a')"
    using a by (rule same_cells_map_cells)
  moreover have "same_cells (map_cells ?g b) (map_cells ?g b')"
    using b by (rule same_cells_map_cells)
  ultimately show ?thesis
    using broadcast_op_cong2[of "map_cells ?f a" "map_cells ?f a'" "map_cells ?g b" "map_cells ?g b'" "(*)"]
          np_mean_cong[OF a] np_std_cong[OF a] np_mean_cong[OF b] np_std_cong[OF b]
    by (auto simp: ncc_metric_def Let_def error_unique split: sum.splits intro!: np_sum_cong)
qed

lemma same_cells_full_slice:
  "nrows a \<le> h \<Longrightarrow> ncols a \<le> w \<Longrightarrow> same_cells (slice2 a 0 h 0 w) a"
  by (simp add: same_cells_iff slice2_cell min_absorb2)

lemma candidate_score_uncropped:
  assumes "shape t = shape r"
    and "crop_margin (nrows r) e = 0" and "crop_margin (ncols r) e = 0"
  shows "candidate_score m r t e dx dy
           = (if str_lower m = ''ncc'' then ncc_metric r (np_roll t dy dx)
              else ssd_metric r (np_roll t dy dx))"
proof -
  have r: "same_cells (slice2 r 0 (nrows r) 0 (ncols r)) r"
    by (rule same_cells_full_slice) simp_all
  have t: "same_cells (slice2 (np_roll t dy dx) 0 (nrows r) 0 (ncols r)) (np_roll t dy dx)"
    using assms(1) by (intro same_cells_full_slice) (simp_all add: shape_def)
  show ?thesis
    using assms(2,3) ssd_metric_cong2[OF r t] ncc_metric_cong2[OF r t]
    by (simp add: candidate_score_def Let_def score_candidate_def)
qed

lemma ncc_metric_value:
  assumes "nrows a = nrows b" and "ncols a = ncols b"
  shows "ncc_metric a b
           = Inr (\<Sum>i\<leftarrow>[0..<nrows a]. \<Sum>j\<leftarrow>[0..<ncols a].
                    ((cell a i j - np_mean a) / (np_std a + 1 / 100000000))
                    * ((cell b i j - np_mean b) / (np_std b + 1 / 100000000)))"
proof -
  let ?za = "\<lambda>i j. (cell a i j - np_mean a) / (np_std a + 1 / 100000000)"
  let ?zb = "\<lambda>i j. (cell b i j - np_mean b) / (np_std b + 1 / 100000000)"
  have "(\<Sum>i\<leftarrow>[0..<nrows b]. \<Sum>j\<leftarrow>[0..<ncols b].
           ?za (if nrows b = 1 then 0 else i) (if ncols b = 1 then 0 else j)
           * ?zb (if nrows b = 1 then 0 else i) (if ncols b = 1 then 0 else j))
        = (\<Sum>i\<leftarrow>[0..<nrows b]. \<Sum>j\<leftarrow>[0..<ncols b]. ?za i j * ?zb i j)"
    by (intro sum_list_upt_cong) auto
  then show ?thesis
    using assms
    by (simp add: ncc_metric_def Let_def broadcast_op_def broadcast_dim_def np_sum_def map_cells_def)
qed

lemma sum_list_upt_roll:
  "(\<Sum>i\<leftarrow>[0..<n]. f (nat ((int i - d) mod int n))) = (\<Sum>i\<leftarrow>[0..<n]. (f i :: real))"
proof (cases "n = 0")
  case True
  then show ?thesis by simp
next
  case False
  then have n: "0 < int n" by simp
  let ?j = "\<lambda>i. nat ((int i - d) mod int n)"
  let ?i = "\<lambda>i. nat ((int i + d) mod int n)"
  have "sum (\<lambda>i. f (?j i)) {0..<n} = sum f {0..<n}"
  proof (rule sum.reindex_bij_witness[where i = ?i and j = ?j])
    fix a assume "a \<in> {0..<n}"
    then have a: "int a mod int n = int a" by simp
    have "(((int a - d) mod int n) + d) mod int n = int a mod int n"
      by (simp add: mod_add_left_eq)
    then show "?i (?j a) = a" using n a by simp
    show "?j a \<in> {0..<n}" using n by (simp add: nat_less_iff)
    show "f (?j a) = f (?j a)" by simp
  next
    fix b assume "b \<in> {0..<n}"
    then have b: "int b mod int n = int b" by simp
    have "(((int b + d) mod int n) - d) mod int n = int b mod int n"
      by (simp add: mod_diff_left_eq)
    then show "?j (?i b) = b" using n b by simp
    show "?i b \<in> {0..<n}" using n by (simp add: nat_less_iff)
  qed
  then show ?thesis
    by (simp add: interv_sum_list_conv_sum_set_nat)
qed

lemma np_sum_roll: "np_sum (np_roll a dy dx) = np_sum a"
proof -
  have "np_sum (np_roll a dy dx)
          = (\<Sum>i\<leftarrow>[0..<nrows a]. \<Sum>j\<leftarrow>[0..<ncols a].
               cell a (nat ((int i - dy) mod int (nrows a))) (nat ((int j - dx) mod int (ncols a))))"
    by (simp add: np_sum_def np_roll_cell)
  also have "\<dots> = (\<Sum>i\<leftarrow>[0..<nrows a]. \<Sum>j\<leftarrow>[0..<ncols a].
               cell a (nat ((int i - dy) mod int (nrows a))) j)"
    by (simp add: sum_list_upt_roll[where f = "cell a r" for r])
  also have "\<dots> = (\<Sum>i\<leftarrow>[0..<nrows a]. \<Sum>j\<leftarrow>[0..<ncols a]. cell a i j)"
    by (rule sum_list_upt_roll[where f = "\<lambda>r. \<Sum>j\<leftarrow>[0..<ncols a]. cell a r j"])
  finally show ?thesis by (simp add: np_sum_def)
qed

lemma map_cells_roll: "map_cells f (np_roll a dy dx) = np_roll (map_cells f a) dy dx"
  by (simp add: map_cells_def np_roll_def)

lemma np_mean_roll: "np_mean (np_roll a dy dx) = np_mean a"
  by (simp add: np_mean_def np_sum_roll)

lemma np_std_roll: "np_std (np_roll a dy dx) = np_std a"
  by (simp add: np_std_def np_mean_roll map_cells_roll)

section \<open>Crop margins\<close>

lemma crop_margin_floor:
  "crop_margin d e = min (max 0 \<lfloor>real d * e\<rfloor>) (int d div 4)"
proof (cases "0 \<le> real d * e")
  case True
  then show ?thesis by (simp add: crop_margin_def py_int_def)
next
  case False
  then have neg: "real d * e < 0" by simp
  have "\<lceil>real d * e\<rceil> \<le> 0"
    using neg by (simp add: ceiling_le_iff)
  then have c: "max 0 \<lceil>real d * e\<rceil> = 0" by simp
  have "\<lfloor>real d * e\<rfloor> \<le> 0"
    using neg by (simp add: floor_le_iff)
  then have f: "max 0 \<lfloor>real d * e\<rfloor> = 0" by simp
  show ?thesis
    using False by (simp only: crop_margin_def py_int_def if_False c f)
qed

lemma quarter_nonneg: "0 \<le> int d div 4"
  by (simp add: pos_imp_zdiv_nonneg_iff)

text \<open>
  C8.  For every axis length and every edge-crop fraction (also fractions of 0.25 and
  more, and negative ones) the margin lies between 0 and a quarter of the axis:
  \<open>0 \<le> ch \<le> h // 4\<close> and \<open>0 \<le> cw \<le> w // 4\<close>.
\<close>

theorem crop_margin_bounds:
  "0 \<le> crop_margin h edge_crop \<and> crop_margin h edge_crop \<le> int h div 4 \<and>
   0 \<le> crop_margin w edge_crop \<and> crop_margin w edge_crop \<le> int w div 4"
  using quarter_nonneg[of h] quarter_nonneg[of w]
  by (simp add: crop_margin_def)

text \<open>
  C5, as stated: the margin is \<open>clamp(round(d * edge_crop), 0, d // 4)\<close>.  It is not:
  for an axis of length 14 and the fraction 1/8 the product is 1.75, which the code
  truncates to 1 and rounding takes to 2 (the cap is 3).
\<close>

theorem crop_margin_not_rounded:
  "crop_margin 14 (1 / 8) = 1 \<and> spec_crop_margin 14 (1 / 8) = 2"
proof -
  have "round (7 / 4 :: real) = 2"
    by (simp add: round_def)
  then show ?thesis
    by (simp add: crop_margin_def py_int_def spec_crop_margin_def spec_clamp_def)
qed

text \<open>
  C5, amended.  For every axis length \<open>d\<close> and every edge-crop fraction the margin is
  \<open>clamp(floor(d * edge_crop), 0, d // 4)\<close>: the product is truncated, not rounded,
  before clamping (truncation toward zero and the floor agree after clamping at 0).
\<close>

theorem crop_margin_truncates:
  "crop_margin d edge_crop = spec_clamp \<lfloor>real d * edge_crop\<rfloor> 0 (int d div 4)"
proof -
  have "min (max 0 f) q = max 0 (min f q)" if "0 \<le> q" for f q :: int
    using that by linarith
  from this[OF quarter_nonneg] show ?thesis
    by (simp only: crop_margin_floor spec_clamp_def)
qed

section \<open>Concrete runs\<close>

text \<open>Small grids on which the search is run step by step.\<close>

lemma upt_expand: "[0..<1] = [0]" "[0..<2] = [0, 1]" "[0..<3] = [0, 1, 2]"
  by (simp_all add: eval_nat_numeral)

lemma upto_expand: "[- 1..1] = [- 1, 0, 1]" "[0..0] = [0::int]"
  by (simp_all add: upto_rec1)

lemma ssd_lower: "(str_lower ''ssd'' = ''ncc'') = False"
  by (simp add: str_lower_def lower_char_def)

lemma ncc_lower: "(str_lower ''ncc'' = ''ncc'') = True"
  by (simp add: str_lower_def lower_char_def)

lemma margins_small: "d < 10 \<Longrightarrow> crop_margin d (1 / 10) = 0"
proof -
  assume "d < 10"
  then have "\<lfloor>real d * (1 / 10)\<rfloor> = 0"
    by (simp add: floor_eq_iff)
  then show ?thesis
    using quarter_nonneg[of d] by (simp add: crop_margin_floor)
qed



lemma grid_a_shape: "nrows grid_a = 3" "ncols grid_a = 3"
  by (simp_all add: grid_a_def of_rows_def)

lemma grid_a_cell: "cell grid_a i j = [[1, 2, 0], [0, 0, 0], [0, 0, 0]] ! i ! j"
  by (simp add: grid_a_def of_rows_def)

lemma grid_small_shape: "nrows grid_small = 2" "ncols grid_small = 2"
  by (simp_all add: grid_small_def of_rows_def)

lemma grid_small_cell: "cell grid_small i j = [[1, 2], [3, 4]] ! i ! j"
  by (simp add: grid_small_def of_rows_def)

lemma candidate_score_ssd_uncropped:
  assumes "nrows r \<le> nrows t" and "ncols r \<le> ncols t"
    and "crop_margin (nrows r) e = 0" and "crop_margin (ncols r) e = 0"
    and "str_lower m \<noteq> ''ncc''"
  shows "candidate_score m r t e dx dy
           = Inr (\<Sum>i\<leftarrow>[0..<nrows r]. \<Sum>j\<leftarrow>[0..<ncols r].
                    (cell r i j - cell t (nat ((int i - dy) mod int (nrows t)))
                                         (nat ((int j - dx) mod int (ncols t))))\<^sup>2)"
  using assms
  by (simp add: candidate_score_def Let_def score_candidate_def ssd_metric_value
                slice2_cell np_roll_cell min_absorb1 min_absorb2)



lemma sqrt_four_ninths: "sqrt (4 / 9) = 2 / 3"
  by (rule real_sqrt_unique) (simp_all add: power2_eq_square)

lemma grid_a_mean: "np_mean grid_a = 1 / 3"
  by (simp add: np_mean_def np_sum_def grid_a_shape grid_a_cell upt_expand)

lemma grid_a_std: "np_std grid_a = 2 / 3"
  by (simp add: np_std_def np_mean_def np_sum_def map_cells_cell grid_a_shape grid_a_cell
                upt_expand power2_eq_square sqrt_four_ninths)

lemma shift_scores:
  "candidate_score ''ncc'' grid_a (apply_alignment grid_a 1 0) (1 / 10) (- 1) (- 1)
     = Inr (- 1 / (2 / 3 + 1 / 100000000)\<^sup>2) \<and>
   candidate_score ''ncc'' grid_a (apply_alignment grid_a 1 0) (1 / 10) 0 (- 1)
     = Inr (- 1 / (2 / 3 + 1 / 100000000)\<^sup>2) \<and>
   candidate_score ''ncc'' grid_a (apply_alignment grid_a 1 0) (1 / 10) 1 (- 1)
     = Inr (- 1 / (2 / 3 + 1 / 100000000)\<^sup>2) \<and>
   candidate_score ''ncc'' grid_a (apply_alignment grid_a 1 0) (1 / 10) (- 1) 0
     = Inr (4 / (2 / 3 + 1 / 100000000)\<^sup>2) \<and>
   candidate_score ''ncc'' grid_a (apply_alignment grid_a 1 0) (1 / 10) 0 0
     = Inr (1 / (2 / 3 + 1 / 100000000)\<^sup>2) \<and>
   candidate_score ''ncc'' grid_a (apply_alignment grid_a 1 0) (1 / 10) 1 0
     = Inr (1 / (2 / 3 + 1 / 100000000)\<^sup>2) \<and>
   candidate_score ''ncc'' grid_a (apply_alignment grid_a 1 0) (1 / 10) (- 1) 1
     = Inr (- 1 / (2 / 3 + 1 / 100000000)\<^sup>2) \<and>
   candidate_score ''ncc'' grid_a (apply_alignment grid_a 1 0) (1 / 10) 0 1
     = Inr (- 1 / (2 / 3 + 1 / 100000000)\<^sup>2) \<and>
   candidate_score ''ncc'' grid_a (apply_alignment grid_a 1 0) (1 / 10) 1 1
     = Inr (- 1 / (2 / 3 + 1 / 100000000)\<^sup>2)"
  by (simp add: candidate_score_uncropped apply_alignment_def shape_def grid_a_shape margins_small
                ncc_lower ncc_metric_value np_mean_roll np_std_roll grid_a_mean grid_a_std
                np_roll_cell upt_expand grid_a_cell power2_eq_square)

lemma shift_run:
  "align_bruteforce grid_a (apply_alignment grid_a 1 0) 1 ''ncc'' (1 / 10)
     = Inr (- 1, 0, Fin (4 / (2 / 3 + 1 / 100000000)\<^sup>2))"
proof -
  have "crops_compatible grid_a (apply_alignment grid_a 1 0) (1 / 10)"
    by (rule crops_compatible_same_shape) (simp add: shape_def apply_alignment_def)
  then show ?thesis
    by (subst align_bruteforce_fold)
       (simp_all add: upto_expand shift_scores ncc_lower power2_eq_square)
qed

section \<open>Optimality and tie-breaking of the exhaustive search\<close>

text \<open>
  C1.  For equally shaped grids, every radius \<open>R \<ge> 0\<close>, every metric name and every
  edge-crop fraction, \<^verbatim>\<open>align_bruteforce\<close> returns a displacement of the window
  \<open>[-R, R] \<times> [-R, R]\<close> together with its score, and the score is optimal: with
  NCC no candidate of the window scores higher, with SSD none scores lower.
\<close>

theorem align_bruteforce_globally_optimal:
  assumes "shape reference = shape target" and "0 \<le> R"
  shows "\<exists>bdx bdy bs.
           align_bruteforce reference target R metric edge_crop = Inr (bdx, bdy, Fin bs) \<and>
           - R \<le> bdx \<and> bdx \<le> R \<and> - R \<le> bdy \<and> bdy \<le> R \<and>
           candidate_score metric reference target edge_crop bdx bdy = Inr bs \<and>
           (\<forall>dx dy. - R \<le> dx \<and> dx \<le> R \<and> - R \<le> dy \<and> dy \<le> R \<longrightarrow>
              (\<exists>s. candidate_score metric reference target edge_crop dx dy = Inr s \<and>
                   (if str_lower metric = ''ncc'' then s \<le> bs else bs \<le> s)))"
proof -
  have comp: "crops_compatible reference target edge_crop"
    using assms(1) by (rule crops_compatible_same_shape)
  from align_bruteforce_first_optimum[OF comp assms(2), of metric]
  obtain bdx bdy where
    res: "align_bruteforce reference target R metric edge_crop
            = Inr (bdx, bdy, Fin (projr (candidate_score metric reference target edge_crop bdx bdy)))"
    and win: "bdx \<in> {- R..R}" "bdy \<in> {- R..R}"
    and opt: "\<forall>dx\<in>{- R..R}. \<forall>dy\<in>{- R..R}.
                if str_lower metric = ''ncc''
                then projr (candidate_score metric reference target edge_crop dx dy)
                       \<le> projr (candidate_score metric reference target edge_crop bdx bdy)
                else projr (candidate_score metric reference target edge_crop bdx bdy)
                       \<le> projr (candidate_score metric reference target edge_crop dx dy)"
    by blast
  let ?bs = "projr (candidate_score metric reference target edge_crop bdx bdy)"
  have "\<exists>s. candidate_score metric reference target edge_crop dx dy = Inr s \<and>
             (if str_lower metric = ''ncc'' then s \<le> ?bs else ?bs \<le> s)"
    if "- R \<le> dx \<and> dx \<le> R \<and> - R \<le> dy \<and> dy \<le> R" for dx dy
  proof -
    have "dx \<in> {- R..R}" "dy \<in> {- R..R}" using that by simp_all
    with opt have "if str_lower metric = ''ncc''
                then projr (candidate_score metric reference target edge_crop dx dy) \<le> ?bs
                else ?bs \<le> projr (candidate_score metric reference target edge_crop dx dy)"
      by blast
    with candidate_score_Inr[OF comp, of metric dx dy] show ?thesis by blast
  qed
  then have all: "\<forall>dx dy. - R \<le> dx \<and> dx \<le> R \<and> - R \<le> dy \<and> dy \<le> R \<longrightarrow>
              (\<exists>s. candidate_score metric reference target edge_crop dx dy = Inr s \<and>
                   (if str_lower metric = ''ncc'' then s \<le> ?bs else ?bs \<le> s))"
    by blast
  have sc: "candidate_score metric reference target edge_crop bdx bdy = Inr ?bs"
    by (rule candidate_score_Inr[OF comp])
  show ?thesis
    apply (rule exI[of _ bdx], rule exI[of _ bdy], rule exI[of _ ?bs])
    using res win sc all by simp
qed


theorem align_bruteforce_globally_optimal_witness:
  "shape grid_a = shape (apply_alignment grid_a 1 0) \<and> (0::int) \<le> 1 \<and>
   (\<exists>bs s. align_bruteforce grid_a (apply_alignment grid_a 1 0) 1 ''ncc'' (1 / 10)
              = Inr (- 1, 0, Fin bs) \<and>
            candidate_score ''ncc'' grid_a (apply_alignment grid_a 1 0) (1 / 10) 1 1 = Inr s \<and>
            s \<le> bs)"
proof -
  have sh: "shape grid_a = shape (apply_alignment grid_a 1 0)"
    by (simp add: shape_def apply_alignment_def)
  from align_bruteforce_globally_optimal[OF sh, of 1 "''ncc''" "1 / 10"]
  obtain bdx bdy bs where
    res: "align_bruteforce grid_a (apply_alignment grid_a 1 0) 1 ''ncc'' (1 / 10)
            = Inr (bdx, bdy, Fin bs)"
    and opt: "\<forall>dx dy. - 1 \<le> dx \<and> dx \<le> 1 \<and> - 1 \<le> dy \<and> dy \<le> 1 \<longrightarrow>
              (\<exists>s. candidate_score ''ncc'' grid_a (apply_alignment grid_a 1 0) (1 / 10) dx dy = Inr s \<and>
                   (if str_lower ''ncc'' = ''ncc'' then s \<le> bs else bs \<le> s))"
    by auto
  have "\<exists>s. candidate_score ''ncc'' grid_a (apply_alignment grid_a 1 0) (1 / 10) 1 1 = Inr s \<and>
             s \<le> bs"
    using opt[rule_format, of 1 1] by (simp add: ncc_lower)
  then obtain s where
    "candidate_score ''ncc'' grid_a (apply_alignment grid_a 1 0) (1 / 10) 1 1 = Inr s" "s \<le> bs"
    by blast
  moreover have "bdx = - 1" "bdy = 0"
    using res by (simp_all add: shift_run)
  ultimately show ?thesis
    using sh res by auto
qed



section \<open>Differing shapes\<close>

lemma crop_margin_nat_le: "nat (crop_margin d e) \<le> d"
proof -
  have "crop_margin d e \<le> int d div 4" by (simp add: crop_margin_def)
  also have "\<dots> \<le> int d" by simp
  finally show ?thesis by simp
qed

lemma crops_compatible_target_larger:
  assumes "nrows r \<le> nrows t" and "ncols r \<le> ncols t"
  shows "crops_compatible r t e"
proof -
  let ?h = "nrows r" and ?w = "ncols r"
  let ?ch = "nat (crop_margin ?h e)" and ?cw = "nat (crop_margin ?w e)"
  have ch: "?ch \<le> ?h" and cw: "?cw \<le> ?w"
    by (rule crop_margin_nat_le)+
  have "nrows (slice2 r ?ch (?h - ?ch) ?cw (?w - ?cw)) = nrows (slice2 t ?ch (?h - ?ch) ?cw (?w - ?cw))"
    using assms(1) ch by (simp add: min_absorb1 min_absorb2)
  moreover
  have "ncols (slice2 r ?ch (?h - ?ch) ?cw (?w - ?cw)) = ncols (slice2 t ?ch (?h - ?ch) ?cw (?w - ?cw))"
    using assms(2) cw by (simp add: min_absorb1 min_absorb2)
  ultimately
  have "shape (slice2 r ?ch (?h - ?ch) ?cw (?w - ?cw)) = shape (slice2 t ?ch (?h - ?ch) ?cw (?w - ?cw))"
    by (simp only: shape_def)
  then show ?thesis
    unfolding crops_compatible_def Let_def by (rule broadcastable_same_shape)
qed

lemma scan_candidates_fails:
  assumes "\<And>dy dx. score_candidate u rc t ch cw h w dy dx = Inl e" and "0 \<le> R"
  shows "scan_candidates u rc t ch cw h w R init = Inl e"
proof -
  have ne: "[- R..R] \<noteq> []" using assms(2) by (simp add: upto_rec1)
  have inner: "for_range
          (\<lambda>dx st. case score_candidate u rc t ch cw h w dy dx of
                      Inl e \<Rightarrow> Inl e
                    | Inr sc \<Rightarrow> Inr (update_best u dy dx sc st))
          [- R..R] st = Inl e" for dy st
    by (rule for_range_fails[OF ne]) (simp add: assms(1))
  show ?thesis
    unfolding scan_candidates_def
    by (rule for_range_fails[OF ne]) (rule inner)
qed

lemma align_bruteforce_Inl_iff:
  assumes "0 \<le> R"
  shows "(align_bruteforce r t R m e = Inl err) = (\<not> crops_compatible r t e)"
proof (cases "crops_compatible r t e")
  case True
  then show ?thesis
    by (simp add: align_bruteforce_fold split: prod.splits)
next
  case False
  let ?h = "nrows r" and ?w = "ncols r"
  let ?ch = "nat (crop_margin ?h e)" and ?cw = "nat (crop_margin ?w e)"
  let ?rc = "slice2 r ?ch (?h - ?ch) ?cw (?w - ?cw)"
  have "score_candidate (str_lower m = ''ncc'') ?rc t ?ch ?cw ?h ?w dy dx = Inl err" for dy dx
    using False by (simp add: score_candidate_Inl crops_compatible_def Let_def)
  from scan_candidates_fails[OF this assms] show ?thesis
    using False by (simp add: align_bruteforce_def Let_def)
qed

lemma align_bruteforce_empty_window:
  assumes "R < 0"
  shows "align_bruteforce r t R m e
           = Inr (0, 0, if str_lower m = ''ncc'' then NegInf else PosInf)"
proof -
  have "[- R..R] = []" using assms by simp
  then show ?thesis
    by (simp add: align_bruteforce_def Let_def scan_candidates_def)
qed

text \<open>
  C3, as stated: two 2-dimensional inputs of different shapes make the call fail
  before any search.  They do not: a 2 by 2 reference against a 3 by 3 target is
  searched and a displacement is returned.
\<close>

theorem shape_mismatch_not_rejected:
  "shape grid_small \<noteq> shape grid_a \<and>
   align_bruteforce grid_small grid_a 1 ''ssd'' (1 / 10) = Inr (0, 1, Fin 13)"
proof -
  have sc:
    "candidate_score ''ssd'' grid_small grid_a (1 / 10) (- 1) (- 1) = Inr 30 \<and>
     candidate_score ''ssd'' grid_small grid_a (1 / 10) 0 (- 1) = Inr 30 \<and>
     candidate_score ''ssd'' grid_small grid_a (1 / 10) 1 (- 1) = Inr 30 \<and>
     candidate_score ''ssd'' grid_small grid_a (1 / 10) (- 1) 0 = Inr 30 \<and>
     candidate_score ''ssd'' grid_small grid_a (1 / 10) 0 0 = Inr 25 \<and>
     candidate_score ''ssd'' grid_small grid_a (1 / 10) 1 0 = Inr 27 \<and>
     candidate_score ''ssd'' grid_small grid_a (1 / 10) (- 1) 1 = Inr 22 \<and>
     candidate_score ''ssd'' grid_small grid_a (1 / 10) 0 1 = Inr 13 \<and>
     candidate_score ''ssd'' grid_small grid_a (1 / 10) 1 1 = Inr 23"
    by (simp add: candidate_score_ssd_uncropped grid_small_shape grid_a_shape margins_small
                  ssd_lower upt_expand grid_small_cell grid_a_cell)
  have "crops_compatible grid_small grid_a (1 / 10)"
    by (rule crops_compatible_target_larger) (simp_all add: grid_small_shape grid_a_shape)
  then have "align_bruteforce grid_small grid_a 1 ''ssd'' (1 / 10) = Inr (0, 1, Fin 13)"
    by (subst align_bruteforce_fold) (simp_all add: upto_expand sc ssd_lower)
  then show ?thesis
    by (simp add: shape_def grid_small_shape grid_a_shape)
qed

text \<open>
  C3, amended.  \<^verbatim>\<open>align_bruteforce\<close> makes no shape check of its own.  With a
  radius \<open>R \<ge> 0\<close> the call fails exactly when the cropped reference and the target
  cropped with the reference's margins and bounds cannot be combined elementwise;
  the failure is NumPy's broadcast \<^verbatim>\<open>ValueError\<close>, raised when the first candidate
  is scored.  In particular a target at least as large as the reference in both axes
  is searched and a result is returned.  With \<open>R < 0\<close> nothing is scored and the
  initial best is returned.
\<close>

theorem align_bruteforce_no_shape_check:
  "(0 \<le> R \<longrightarrow>
      (align_bruteforce reference target R metric edge_crop = Inl ValueError)
        = (\<not> crops_compatible reference target edge_crop)) \<and>
   (0 \<le> R \<and> nrows reference \<le> nrows target \<and> ncols reference \<le> ncols target \<longrightarrow>
      (\<exists>bdx bdy bs. align_bruteforce reference target R metric edge_crop = Inr (bdx, bdy, Fin bs))) \<and>
   (R < 0 \<longrightarrow>
      align_bruteforce reference target R metric edge_crop
        = Inr (0, 0, if str_lower metric = ''ncc'' then NegInf else PosInf))"
proof (intro conjI impI)
  assume "0 \<le> R"
  then show "(align_bruteforce reference target R metric edge_crop = Inl ValueError)
        = (\<not> crops_compatible reference target edge_crop)"
    by (rule align_bruteforce_Inl_iff)
next
  assume h: "0 \<le> R \<and> nrows reference \<le> nrows target \<and> ncols reference \<le> ncols target"
  then have "crops_compatible reference target edge_crop"
    by (intro crops_compatible_target_larger) simp_all
  from align_bruteforce_first_optimum[OF this, of R metric] h
  show "\<exists>bdx bdy bs. align_bruteforce reference target R metric edge_crop = Inr (bdx, bdy, Fin bs)"
    by blast
next
  assume "R < 0"
  then show "align_bruteforce reference target R metric edge_crop
        = Inr (0, 0, if str_lower metric = ''ncc'' then NegInf else PosInf)"
    by (rule align_bruteforce_empty_window)
qed

theorem align_bruteforce_no_shape_check_witness:
  "(0::int) \<le> 1 \<and> nrows grid_small \<le> nrows grid_a \<and> ncols grid_small \<le> ncols grid_a \<and>
   crops_compatible grid_small grid_a (1 / 10) \<and>
   align_bruteforce grid_small grid_a 1 ''ssd'' (1 / 10) \<noteq> Inl ValueError \<and>
   (\<exists>bdx bdy bs. align_bruteforce grid_small grid_a 1 ''ssd'' (1 / 10) = Inr (bdx, bdy, Fin bs)) \<and>
   \<not> crops_compatible grid_a grid_small (1 / 10) \<and>
   align_bruteforce grid_a grid_small 1 ''ssd'' (1 / 10) = Inl ValueError \<and>
   align_bruteforce grid_a grid_small (- 1) ''ssd'' (1 / 10) = Inr (0, 0, PosInf)"
proof -
  have le: "nrows grid_small \<le> nrows grid_a" "ncols grid_small \<le> ncols grid_a"
    by (simp_all add: grid_small_shape grid_a_shape)
  have c1: "crops_compatible grid_small grid_a (1 / 10)"
    by (simp add: crops_compatible_def Let_def broadcastable_def broadcast_dim_def
                  grid_small_shape grid_a_shape margins_small)
  have c2: "\<not> crops_compatible grid_a grid_small (1 / 10)"
    by (simp add: crops_compatible_def Let_def broadcastable_def broadcast_dim_def
                  grid_small_shape grid_a_shape margins_small)
  note t1 = align_bruteforce_no_shape_check[of 1 grid_small grid_a "''ssd''" "1 / 10"]
  note t2 = align_bruteforce_no_shape_check[of 1 grid_a grid_small "''ssd''" "1 / 10"]
  note t3 = align_bruteforce_no_shape_check[of "- 1" grid_a grid_small "''ssd''" "1 / 10"]
  show ?thesis
    using le c1 c2 t1 t2 t3 by (simp add: ssd_lower)
qed


section \<open>When a given displacement is the one returned\<close>




section \<open>Correlation against a circular shift of the same grid\<close>










section \<open>A target that some displacement maps onto the reference\<close>


lemma candidate_score_projr:
  "crops_compatible r t e \<Longrightarrow> candidate_score m r t e dx dy = Inr s
     \<Longrightarrow> projr (candidate_score m r t e dx dy) = s"
  by simp












section \<open>Identity and recovery of a known shift\<close>

















section \<open>Properties of the pyramid search\<close>

lemma fold_append_length:
  "length (fold (\<lambda>_ refs. refs @ [decimate (last refs)]) xs init) = length init + length xs"
  by (induction xs arbitrary: init) auto

lemma length_build_pyramid: "length (build_pyramid a levels) = nat (max 1 levels)"
  by (simp add: build_pyramid_def fold_append_length)




lemma pyramid_level_eq:
  "pyramid_level refs tars base_search refine_search (str_lower metric = ''ncc'') edge_crop lvl tot
     = level_with_radius refs tars (if lvl = 0 then base_search else refine_search)
         metric edge_crop lvl tot"
proof -
  let ?ref = "refs ! lvl"
  let ?h = "nrows ?ref" and ?w = "ncols ?ref"
  let ?ch = "nat (crop_margin ?h edge_crop)" and ?cw = "nat (crop_margin ?w edge_crop)"
  let ?scan = "scan_candidates (str_lower metric = ''ncc'')
                 (slice2 ?ref ?ch (?h - ?ch) ?cw (?w - ?cw))
                 (np_roll (tars ! lvl) (snd tot) (fst tot)) ?ch ?cw ?h ?w
                 (if lvl = 0 then base_search else refine_search)
                 (if str_lower metric = ''ncc'' then NegInf else PosInf, 0, 0)"
  show ?thesis
  proof (cases ?scan)
    case (Inl e)
    then show ?thesis
      by (simp add: pyramid_level_def level_with_radius_def align_bruteforce_def Let_def)
  next
    case (Inr st)
    then show ?thesis
      by (cases st)
         (simp add: pyramid_level_def level_with_radius_def align_bruteforce_def Let_def)
  qed
qed

lemma pyramid_level_fun:
  "pyramid_level refs tars base_search refine_search (str_lower metric = ''ncc'') edge_crop
     = (\<lambda>lvl. level_with_radius refs tars (if lvl = 0 then base_search else refine_search)
                metric edge_crop lvl)"
  by (intro ext) (rule pyramid_level_eq)

lemma pyramid_align_eq:
  "pyramid_align reference target levels base_search refine_search metric edge_crop
     = for_range (\<lambda>lvl. level_with_radius (build_pyramid reference levels)
                           (build_pyramid target levels)
                           (if lvl = 0 then base_search else refine_search) metric edge_crop lvl)
         (rev [0..<nat (max 1 levels)]) (0, 0)"
  by (simp only: pyramid_align_def Let_def pyramid_level_fun length_build_pyramid)






lemma align_bruteforce_radius_zero:
  assumes "crops_compatible r t e"
  shows "align_bruteforce r t 0 m e = Inr (0, 0, Fin (projr (candidate_score m r t e 0 0)))"
  by (simp add: align_bruteforce_fold[OF assms] upto_expand)

lemma grid_wide_shape: "nrows grid_wide = 2" "ncols grid_wide = 6"
  by (simp_all add: grid_wide_def of_rows_def)

lemma grid_wide_cell:
  "cell grid_wide i j = [[1, 9, 2, 9, 0, 9], [9, 9, 9, 9, 9, 9]] ! i ! j"
  by (simp add: grid_wide_def of_rows_def)

lemma grid_wide_pyramid: "build_pyramid grid_wide 2 = [grid_wide, decimate grid_wide]"
proof -
  have "[1..<nat (max 1 2)] = [1]" by (simp add: upt_rec)
  then show ?thesis by (simp add: build_pyramid_def)
qed

lemma coarse_shape: "nrows (decimate grid_wide) = 1" "ncols (decimate grid_wide) = 3"
  by (simp_all add: decimate_def grid_wide_shape)

lemma coarse_cell: "cell (decimate grid_wide) i j = cell grid_wide (2 * i) (2 * j)"
  by (simp add: decimate_def)

lemma coarse_scores:
  "candidate_score ''ssd'' (decimate grid_wide) (np_roll (decimate grid_wide) 0 0) (1 / 10) (- 1) (- 1) = Inr 6 \<and>
   candidate_score ''ssd'' (decimate grid_wide) (np_roll (decimate grid_wide) 0 0) (1 / 10) 0 (- 1) = Inr 0 \<and>
   candidate_score ''ssd'' (decimate grid_wide) (np_roll (decimate grid_wide) 0 0) (1 / 10) 1 (- 1) = Inr 6 \<and>
   candidate_score ''ssd'' (decimate grid_wide) (np_roll (decimate grid_wide) 0 0) (1 / 10) (- 1) 0 = Inr 6 \<and>
   candidate_score ''ssd'' (decimate grid_wide) (np_roll (decimate grid_wide) 0 0) (1 / 10) 0 0 = Inr 0 \<and>
   candidate_score ''ssd'' (decimate grid_wide) (np_roll (decimate grid_wide) 0 0) (1 / 10) 1 0 = Inr 6 \<and>
   candidate_score ''ssd'' (decimate grid_wide) (np_roll (decimate grid_wide) 0 0) (1 / 10) (- 1) 1 = Inr 6 \<and>
   candidate_score ''ssd'' (decimate grid_wide) (np_roll (decimate grid_wide) 0 0) (1 / 10) 0 1 = Inr 0 \<and>
   candidate_score ''ssd'' (decimate grid_wide) (np_roll (decimate grid_wide) 0 0) (1 / 10) 1 1 = Inr 6"
  by (simp add: candidate_score_ssd_uncropped coarse_shape margins_small ssd_lower
                upt_expand np_roll_cell coarse_cell grid_wide_cell)

lemma coarse_step_refine:
  "level_with_radius [grid_wide, decimate grid_wide] [grid_wide, decimate grid_wide]
     1 ''ssd'' (1 / 10) (Suc 0) (0, 0) = Inr (0, - 2)"
proof -
  have "crops_compatible (decimate grid_wide) (np_roll (decimate grid_wide) 0 0) (1 / 10)"
    by (rule crops_compatible_same_shape) (simp add: shape_def)
  then have "align_bruteforce (decimate grid_wide) (np_roll (decimate grid_wide) 0 0) 1 ''ssd'' (1 / 10)
               = Inr (0, - 1, Fin 0)"
    by (subst align_bruteforce_fold) (simp_all add: upto_expand coarse_scores ssd_lower)
  then show ?thesis
    by (simp add: level_with_radius_def)
qed

lemma coarse_step_base:
  "level_with_radius [grid_wide, decimate grid_wide] [grid_wide, decimate grid_wide]
     0 ''ssd'' (1 / 10) (Suc 0) (0, 0) = Inr (0, 0)"
proof -
  have "crops_compatible (decimate grid_wide) (np_roll (decimate grid_wide) 0 0) (1 / 10)"
    by (rule crops_compatible_same_shape) (simp add: shape_def)
  from align_bruteforce_radius_zero[OF this, of "''ssd''"]
  show ?thesis
    by (simp add: level_with_radius_def)
qed

lemma fine_step_base:
  "level_with_radius [grid_wide, decimate grid_wide] [grid_wide, decimate grid_wide]
     0 ''ssd'' (1 / 10) 0 (0, - 2) = Inr (0, - 2)"
proof -
  have "crops_compatible grid_wide (np_roll grid_wide (- 2) 0) (1 / 10)"
    by (rule crops_compatible_same_shape) (simp add: shape_def)
  from align_bruteforce_radius_zero[OF this, of "''ssd''"]
  show ?thesis
    by (simp add: level_with_radius_def)
qed

lemma pyramid_run: "pyramid_align grid_wide grid_wide 2 0 1 ''ssd'' (1 / 10) = Inr (0, - 2)"
proof -
  have "rev [0..<nat (max 1 2)] = [Suc 0, 0]" by (simp add: upt_rec)
  then show ?thesis
    by (simp add: pyramid_align_eq grid_wide_pyramid coarse_step_refine fine_step_base)
qed

text \<open>
  C4, as stated: with \<open>L \<ge> 2\<close> levels the coarsest level (index \<open>L - 1\<close>) is searched
  with radius \<open>base_search\<close> and the others with \<open>refine_search\<close>.  It is the other
  way round: with two levels, \<open>base_search = 0\<close> and \<open>refine_search = 1\<close>, the
  coarsest level of a 2 by 6 grid moves the estimate to \<open>(0, -1)\<close> (doubled to
  \<open>(0, -2)\<close>), which a search of radius \<open>base_search = 0\<close> cannot do.
\<close>

theorem coarsest_level_not_base_search:
  "pyramid_level (build_pyramid grid_wide 2) (build_pyramid grid_wide 2) 0 1
     (str_lower ''ssd'' = ''ncc'') (1 / 10) (2 - 1) (0, 0) = Inr (0, - 2) \<and>
   level_with_radius (build_pyramid grid_wide 2) (build_pyramid grid_wide 2)
     (spec_level_radius 2 0 1 (2 - 1)) ''ssd'' (1 / 10) (2 - 1) (0, 0) = Inr (0, 0) \<and>
   pyramid_align grid_wide grid_wide 2 0 1 ''ssd'' (1 / 10) = Inr (0, - 2)"
  by (simp add: pyramid_level_eq grid_wide_pyramid spec_level_radius_def
                coarse_step_refine coarse_step_base pyramid_run)

text \<open>
  C4, amended.  For every call with \<open>L \<ge> 2\<close> levels the levels \<open>L - 1, \<dots>, 0\<close> are
  searched in this order, each by the exhaustive search of the level's reference
  against the level's shifted target; level 0 (full resolution) uses radius
  \<open>base_search\<close> and every level of index 1 and more, the coarsest level \<open>L - 1\<close>
  among them, uses radius \<open>refine_search\<close>.
\<close>

theorem pyramid_radius_schedule:
  assumes "2 \<le> L"
  shows
   "pyramid_align reference target L base_search refine_search metric edge_crop
      = for_range (\<lambda>lvl. level_with_radius (build_pyramid reference L) (build_pyramid target L)
                            (if lvl = 0 then base_search else refine_search) metric edge_crop lvl)
          (rev [0..<nat L]) (0, 0) \<and>
    length (build_pyramid reference L) = nat L \<and>
    pyramid_level refs tars base_search refine_search (str_lower metric = ''ncc'') edge_crop 0 tot
      = level_with_radius refs tars base_search metric edge_crop 0 tot \<and>
    (\<forall>lvl. 0 < lvl \<longrightarrow>
       pyramid_level refs tars base_search refine_search (str_lower metric = ''ncc'') edge_crop lvl tot
         = level_with_radius refs tars refine_search metric edge_crop lvl tot) \<and>
    pyramid_level refs tars base_search refine_search (str_lower metric = ''ncc'') edge_crop
        (nat L - 1) tot
      = level_with_radius refs tars refine_search metric edge_crop (nat L - 1) tot"
proof -
  have L: "max 1 L = L" "nat L - 1 \<noteq> 0" using assms by simp_all
  show ?thesis
    using L by (simp add: pyramid_align_eq length_build_pyramid pyramid_level_eq)
qed

theorem pyramid_radius_schedule_witness:
  "(2::int) \<le> 2 \<and>
   pyramid_level (build_pyramid grid_wide 2) (build_pyramid grid_wide 2) 0 1
     (str_lower ''ssd'' = ''ncc'') (1 / 10) (nat 2 - 1) (0, 0)
     = level_with_radius (build_pyramid grid_wide 2) (build_pyramid grid_wide 2)
         1 ''ssd'' (1 / 10) (nat 2 - 1) (0, 0) \<and>
   level_with_radius (build_pyramid grid_wide 2) (build_pyramid grid_wide 2)
         1 ''ssd'' (1 / 10) (nat 2 - 1) (0, 0) = Inr (0, - 2)"
proof -
  have "(2::int) \<le> 2" by simp
  from pyramid_radius_schedule[OF this, of grid_wide grid_wide 0 1 "''ssd''" "1 / 10"
         "build_pyramid grid_wide 2" "build_pyramid grid_wide 2" "(0, 0)"]
  show ?thesis
    by (simp add: grid_wide_pyramid coarse_step_refine)
qed





end
